theory Spec2Isabelle
  imports Complex_Main "HOL-Library.Monad_Syntax"
begin

section \<open>Arrays, slices and elementwise operations\<close>

text \<open>
  A mono audio buffer is a list of samples. The source stores 32-bit floats; the model
  computes with real numbers, so every result below that speaks about a length, an index
  or a sample that is copied (not recomputed) is independent of rounding.
  A function that can raise returns an option: \<open>None\<close> is the raised exception.
\<close>

type_synonym sample = real
type_synonym buffer = "sample list"

text \<open>
  A slice bound of Python, numpy and torch: a negative bound counts from the end, and
  every bound is clipped to the extent of the array.
\<close>

definition norm_index :: "nat \<Rightarrow> int \<Rightarrow> nat" where
  "norm_index n i = (if i < 0 then nat (max 0 (i + int n)) else min (nat i) n)"

text \<open>\<open>xs[a:b]\<close>, \<open>xs[:b]\<close> and \<open>xs[a:]\<close>.\<close>

definition py_slice :: "'a list \<Rightarrow> int \<Rightarrow> int \<Rightarrow> 'a list" where
  "py_slice xs a b =
     (let n = length xs; lo = norm_index n a; hi = norm_index n b
      in take (hi - lo) (drop lo xs))"

definition py_slice_to :: "'a list \<Rightarrow> int \<Rightarrow> 'a list" where
  "py_slice_to xs b = take (norm_index (length xs) b) xs"

definition py_slice_from :: "'a list \<Rightarrow> int \<Rightarrow> 'a list" where
  "py_slice_from xs a = drop (norm_index (length xs) a) xs"

text \<open>
  \<open>out[a:b] = v\<close> on a one-dimensional numpy array: the value must have the length of
  the target slice, or length 1 (it is then broadcast); anything else raises ValueError.
\<close>

definition set_slice :: "'a list \<Rightarrow> int \<Rightarrow> int \<Rightarrow> 'a list \<Rightarrow> 'a list option" where
  "set_slice out a b v =
     (let n = length out; lo = norm_index n a; hi = max lo (norm_index n b); w = hi - lo
      in if length v = w then Some (take lo out @ v @ drop hi out)
         else if length v = 1 then Some (take lo out @ replicate w (hd v) @ drop hi out)
         else None)"

text \<open>
  An elementwise binary operation of numpy on two one-dimensional arrays, with
  broadcasting of a length-1 operand; other length mismatches raise ValueError.
\<close>

definition np_binop :: "('a \<Rightarrow> 'a \<Rightarrow> 'a) \<Rightarrow> 'a list \<Rightarrow> 'a list \<Rightarrow> 'a list option" where
  "np_binop f xs ys =
     (if length xs = length ys then Some (map2 f xs ys)
      else if length xs = 1 then Some (map (f (hd xs)) ys)
      else if length ys = 1 then Some (map (\<lambda>x. f x (hd ys)) xs)
      else None)"

text \<open>\<open>np.linspace(0, 1, n)\<close>: \<open>n\<close> evenly spaced weights from 0 to 1, both ends included.\<close>

definition linspace01 :: "nat \<Rightarrow> buffer" where
  "linspace01 n = (if n = 1 then [0] else map (\<lambda>i. real i / real (n - 1)) [0..<n])"

text \<open>Python's \<open>min\<close> over a nonempty sequence (it raises on an empty one).\<close>

definition py_min :: "int list \<Rightarrow> int option" where
  "py_min xs = (if xs = [] then None else Some (min_list xs))"

section \<open>The chunk merger: \<open>AudioProcessor._merge_chunks\<close>\<close>

text \<open>
  One pass of the loop body for a chunk after the first: the current write position
  \<open>write_pos\<close> and the output buffer are the loop state.
\<close>

definition blend_overlap :: "int \<Rightarrow> buffer \<Rightarrow> int \<Rightarrow> int \<Rightarrow> buffer \<Rightarrow> buffer option" where
  "blend_overlap fade_len out start write_pos chunk =
     (let fade_in = linspace01 (nat fade_len);
          fade_out = map (\<lambda>w. 1 - w) fade_in
      in do {
        a \<leftarrow> np_binop (*) (py_slice out start write_pos) fade_out;
        b \<leftarrow> np_binop (*) (py_slice_to chunk fade_len) fade_in;
        s \<leftarrow> np_binop (+) a b;
        set_slice out start write_pos s
      })"

fun merge_loop :: "int \<Rightarrow> nat \<Rightarrow> buffer list \<Rightarrow> buffer \<times> int \<Rightarrow> (buffer \<times> int) option" where
  "merge_loop safe_overlap idx [] st = Some st"
| "merge_loop safe_overlap idx (chunk # rest) (out, write_pos) =
     (if idx = 0 then do {
        out' \<leftarrow> set_slice out 0 (int (length chunk)) chunk;
        merge_loop safe_overlap (Suc idx) rest (out', int (length chunk))
      }
      else
        let start = write_pos - safe_overlap;
            fade_len = safe_overlap
        in do {
          out1 \<leftarrow> (if fade_len > 0 then blend_overlap fade_len out start write_pos chunk
                   else Some out);
          let remain = py_slice_from chunk fade_len;
          let end = start + fade_len + int (length remain);
          out2 \<leftarrow> set_slice out1 (start + fade_len) end remain;
          merge_loop safe_overlap (Suc idx) rest (out2, end)
        })"

definition chunk_lens :: "buffer list \<Rightarrow> int list" where
  "chunk_lens chunks = map (\<lambda>c. int (length c)) chunks"

definition merge_chunks :: "buffer list \<Rightarrow> int \<Rightarrow> buffer option" where
  "merge_chunks chunks overlap_samples =
     (if chunks = [] then Some []
      else if length chunks = 1 \<or> overlap_samples \<le> 0 then Some (concat chunks)
      else do {
        shortest \<leftarrow> py_min (chunk_lens chunks);
        let safe_overlap = min overlap_samples (shortest div 2);
        let total_len = sum_list (chunk_lens chunks) - safe_overlap * (int (length chunks) - 1);
        if total_len < 0 then None
        else map_option fst (merge_loop safe_overlap 0 chunks (replicate (nat total_len) 0, 0))
      })"

section \<open>The chunking loop of \<open>AudioProcessor.enhance_audio\<close>\<close>

text \<open>
  The external model call (\<open>_run_enhance\<close>) is a parameter \<open>enh\<close> from a window of
  samples to the enhanced window. The loop state is the window start and the list of
  enhanced chunks; each entry also records the window \<open>[start, end)\<close> it was cut from.
  The Python loop has no bound of its own, so the model is a partial function: \<open>None\<close>
  stands for a loop that never returns.
\<close>

record window =
  w_start :: int
  w_end :: int
  w_chunk :: buffer

partial_function (option) chunk_loop ::
  "(buffer \<Rightarrow> buffer) \<Rightarrow> buffer \<Rightarrow> int \<Rightarrow> int \<Rightarrow> int \<Rightarrow> window list \<Rightarrow> window list option" where
  "chunk_loop enh audio max_chunk_samples overlap start enhanced_chunks =
     (let total_len = int (length audio) in
      if start < total_len then
        let end = min (start + max_chunk_samples) total_len;
            chunk = py_slice audio start end;
            enhanced_chunks' = enhanced_chunks @
               [\<lparr>w_start = start, w_end = end, w_chunk = enh chunk\<rparr>]
        in if end \<ge> total_len then Some enhanced_chunks'
           else chunk_loop enh audio max_chunk_samples overlap
                  (if overlap > 0 then end - overlap else end) enhanced_chunks'
      else Some enhanced_chunks)"

text \<open>
  \<open>plan_windows\<close> is the loop as \<open>enhance_audio\<close> starts it (lines 167 to 186): the
  overlap clamped to a quarter of the chunk size, the first window at 0, no chunks yet.
  \<open>enhance_stage\<close> is the whole decision of lines 162 to 190: full-buffer processing
  when chunking is off (\<open>max_chunk_samples\<close> is \<open>None\<close> or 0) or the input fits into one
  chunk; the chunk loop and then the merge of its chunks otherwise. Its outer option is
  the loop's termination, the inner one an exception of the merge.
\<close>

definition plan_windows ::
  "(buffer \<Rightarrow> buffer) \<Rightarrow> int \<Rightarrow> int \<Rightarrow> buffer \<Rightarrow> window list option" where
  "plan_windows enh max_chunk_samples chunk_overlap_samples audio =
     chunk_loop enh audio max_chunk_samples
       (min chunk_overlap_samples (max_chunk_samples div 4)) 0 []"

definition enhance_stage ::
  "(buffer \<Rightarrow> buffer) \<Rightarrow> int option \<Rightarrow> int \<Rightarrow> buffer \<Rightarrow> buffer option option" where
  "enhance_stage enh max_chunk_samples chunk_overlap_samples audio =
     (case max_chunk_samples of
        None \<Rightarrow> Some (Some (enh audio))
      | Some c \<Rightarrow>
          if c \<noteq> 0 \<and> int (length audio) > c then
            map_option
              (\<lambda>ws. merge_chunks (map w_chunk ws) (min chunk_overlap_samples (c div 4)))
              (plan_windows enh c chunk_overlap_samples audio)
          else Some (Some (enh audio)))"

section \<open>Closed form of the merge\<close>

text \<open>
  The linear crossfade of the loop body on two equally long runs of samples:
  \<open>prev * (1 - w) + cur * w\<close> with the weights of \<open>linspace01\<close>.
\<close>

definition crossfade :: "buffer \<Rightarrow> buffer \<Rightarrow> buffer" where
  "crossfade prev cur =
     map2 (+) (map2 (*) prev (map (\<lambda>w. 1 - w) (linspace01 (length prev))))
              (map2 (*) cur (linspace01 (length prev)))"

text \<open>
  What the merge loop has written after each chunk: the last \<open>s\<close> samples written so
  far are crossfaded with the first \<open>s\<close> samples of the next chunk, and the rest of that
  chunk is appended. \<open>tail_len\<close> is the number of samples the chunks after the first add.
\<close>

fun stitch :: "nat \<Rightarrow> buffer \<Rightarrow> buffer list \<Rightarrow> buffer" where
  "stitch s written [] = written"
| "stitch s written (c # cs) =
     stitch s (take (length written - s) written @
               crossfade (drop (length written - s) written) (take s c) @ drop s c) cs"

definition tail_len :: "nat \<Rightarrow> buffer list \<Rightarrow> nat" where
  "tail_len s cs = (\<Sum>c\<leftarrow>cs. length c - s)"

text \<open>
  The overlap the merger uses at every boundary (line 239), and the output position of
  the first sample of chunk \<open>i\<close>.
\<close>

definition safe_overlap :: "buffer list \<Rightarrow> int \<Rightarrow> nat" where
  "safe_overlap chunks overlap_samples =
     nat (min overlap_samples (min_list (chunk_lens chunks) div 2))"

definition chunk_offset :: "nat \<Rightarrow> buffer list \<Rightarrow> nat \<Rightarrow> nat" where
  "chunk_offset s chunks i = tail_len s (take i chunks)"

text \<open>
  The merged length as the specification words it: at each boundary the overlap is the
  nominal one clamped to half of the shorter of the two adjacent chunks.
\<close>

definition boundary_overlap_spec :: "int \<Rightarrow> buffer \<Rightarrow> buffer \<Rightarrow> int" where
  "boundary_overlap_spec ov a b = min ov (min (int (length a)) (int (length b)) div 2)"

fun merged_length_spec :: "int \<Rightarrow> buffer list \<Rightarrow> int" where
  "merged_length_spec ov [] = 0"
| "merged_length_spec ov [c] = int (length c)"
| "merged_length_spec ov (a # b # cs) =
     int (length a) - boundary_overlap_spec ov a b + merged_length_spec ov (b # cs)"

section \<open>The gain stage of \<open>AudioProcessor.enhance_audio\<close>\<close>

text \<open>
  Lines 151 and 192 to 197. The gain in dB is the override when one is given, the
  instance default otherwise; \<open>None\<close> and 0 are both false in the test
  \<open>if gain_db and gain_db != 0\<close>, and the stage then returns the buffer as it is.
  \<open>np.clip(x, lo, hi)\<close> is \<open>minimum(maximum(x, lo), hi)\<close>.
\<close>

definition effective_gain :: "real option \<Rightarrow> real option \<Rightarrow> real option" where
  "effective_gain output_gain_db default_gain_db =
     (case output_gain_db of Some g \<Rightarrow> Some g | None \<Rightarrow> default_gain_db)"

definition np_clip :: "real \<Rightarrow> real \<Rightarrow> real \<Rightarrow> real" where
  "np_clip x lo hi = min (max x lo) hi"

definition gain_stage :: "real option \<Rightarrow> buffer \<Rightarrow> buffer" where
  "gain_stage gain_db enhanced =
     (case gain_db of
        None \<Rightarrow> enhanced
      | Some g \<Rightarrow>
          if g \<noteq> 0 then
            let gain = 10 powr (g / 20)
            in map (\<lambda>x. np_clip (x * gain) (- 1) 1) enhanced
          else enhanced)"

section \<open>File retention: \<open>FileCleanupManager\<close>\<close>

text \<open>
  The file system is a map from paths to what \<open>stat\<close> reports; a path that is not in
  the map does not exist. The clock (\<open>time.time()\<close>) is a parameter \<open>now\<close>. Times are
  real numbers of seconds; \<open>int(x)\<close> of Python truncates towards zero.
\<close>

datatype file_kind = RegularFile | Directory

record file_stat =
  st_kind :: file_kind
  st_mtime :: real

type_synonym 'p filesystem = "'p \<rightharpoonup> file_stat"

definition py_int :: "real \<Rightarrow> int" where
  "py_int x = (if 0 \<le> x then \<lfloor>x\<rfloor> else \<lceil>x\<rceil>)"

definition get_file_age_seconds :: "'p filesystem \<Rightarrow> real \<Rightarrow> 'p \<Rightarrow> real" where
  "get_file_age_seconds fs now file_path =
     (case fs file_path of
        None \<Rightarrow> 0
      | Some st \<Rightarrow> now - st_mtime st)"

definition get_time_until_deletion :: "int \<Rightarrow> 'p filesystem \<Rightarrow> real \<Rightarrow> 'p \<Rightarrow> int" where
  "get_time_until_deletion retention_seconds fs now file_path =
     (let age = get_file_age_seconds fs now file_path;
          remaining = real_of_int retention_seconds - age
      in max 0 (py_int remaining))"

text \<open>
  \<open>Path.unlink\<close>: it raises on a missing path and on a directory, and it can fail on a
  regular file for reasons outside the model (permissions, a busy file): \<open>io_fails\<close>.
  Every exception here is an \<open>OSError\<close>, a subclass of \<open>Exception\<close>.
\<close>

datatype os_error = FileNotFoundError | IsADirectoryError | PermissionError

definition unlink :: "bool \<Rightarrow> 'p filesystem \<Rightarrow> 'p \<Rightarrow> os_error + 'p filesystem" where
  "unlink io_fails fs file_path =
     (case fs file_path of
        None \<Rightarrow> Inl FileNotFoundError
      | Some st \<Rightarrow>
          if st_kind st = Directory then Inl IsADirectoryError
          else if io_fails then Inl PermissionError
          else Inr (fs(file_path := None)))"

definition path_exists :: "'p filesystem \<Rightarrow> 'p \<Rightarrow> bool" where
  "path_exists fs file_path = (fs file_path \<noteq> None)"

definition is_file :: "'p filesystem \<Rightarrow> 'p \<Rightarrow> bool" where
  "is_file fs file_path =
     (case fs file_path of None \<Rightarrow> False | Some st \<Rightarrow> st_kind st = RegularFile)"

text \<open>
  \<open>delete_file\<close>: the body of the \<open>try\<close>, which can raise, and the function with its
  \<open>except Exception\<close> handler, which turns every exception of the body into \<open>False\<close>.
  The result is the returned flag and the file system afterwards.
\<close>

definition delete_file_try ::
  "bool \<Rightarrow> 'p filesystem \<Rightarrow> 'p \<Rightarrow> os_error + (bool \<times> 'p filesystem)" where
  "delete_file_try io_fails fs file_path =
     (if path_exists fs file_path \<and> is_file fs file_path then
        (case unlink io_fails fs file_path of
           Inl e \<Rightarrow> Inl e
         | Inr fs' \<Rightarrow> Inr (True, fs'))
      else Inr (False, fs))"

definition delete_file ::
  "bool \<Rightarrow> 'p filesystem \<Rightarrow> 'p \<Rightarrow> os_error + (bool \<times> 'p filesystem)" where
  "delete_file io_fails fs file_path =
     (case delete_file_try io_fails fs file_path of
        Inl e \<Rightarrow> Inr (False, fs)
      | Inr r \<Rightarrow> Inr r)"

section \<open>Model initialisation: \<open>AudioProcessor.initialize\<close>\<close>

text \<open>
  The external loader \<open>init_df\<close> returns the model, raises an \<open>Exception\<close>, or calls
  \<open>sys.exit\<close> (a \<open>SystemExit\<close>, which \<open>except Exception\<close> does not catch). Its outcome is a
  parameter, indexed by the number of calls made before. Besides the flag
  \<open>_initialized\<close>, the processor state logs the calls of the loader and the arguments of
  \<open>time.sleep\<close>. An exception that leaves \<open>initialize\<close> is a \<open>RuntimeError\<close> with its
  message.
\<close>

datatype init_outcome = Loaded | RaisesException string | RaisesSystemExit string

datatype py_exception = RuntimeError string

record processor =
  initialized :: bool
  init_calls :: nat
  sleeps :: "nat list"

definition sleep :: "nat \<Rightarrow> processor \<Rightarrow> processor" where
  "sleep seconds p = p\<lparr>sleeps := sleeps p @ [seconds]\<rparr>"

definition str_of_error :: "string option \<Rightarrow> string" where
  "str_of_error last_err = (case last_err of None \<Rightarrow> ''None'' | Some e \<Rightarrow> e)"

text \<open>The loop \<open>for attempt in range(3)\<close>, over the attempts that are left; the state
  is the processor and \<open>last_err\<close>.\<close>

fun init_attempts ::
  "(nat \<Rightarrow> init_outcome) \<Rightarrow> nat list \<Rightarrow> processor \<times> string option \<Rightarrow> processor \<times> string option" where
  "init_attempts init_df [] st = st"
| "init_attempts init_df (attempt # rest) (p, last_err) =
     (let p1 = p\<lparr>init_calls := Suc (init_calls p)\<rparr> in
      case init_df (init_calls p) of
        Loaded \<Rightarrow> (p1\<lparr>initialized := True\<rparr>, last_err)
      | RaisesSystemExit se \<Rightarrow>
          init_attempts init_df rest
            (sleep (2 ^ attempt) p1, Some (''DeepFilterNet init aborted (SystemExit): '' @ se))
      | RaisesException e \<Rightarrow>
          init_attempts init_df rest (sleep (2 ^ attempt) p1, Some e))"

text \<open>
  \<open>initialize\<close>: nothing happens when the model is loaded already; a failing import of
  the loader and the error raised after the last attempt both reach the outer handler,
  which raises the one \<open>RuntimeError\<close> the caller sees.
\<close>

definition initialize ::
  "bool \<Rightarrow> (nat \<Rightarrow> init_outcome) \<Rightarrow> processor \<Rightarrow> (py_exception + unit) \<times> processor" where
  "initialize import_ok init_df p =
     (if initialized p then (Inr (), p)
      else if \<not> import_ok then
        (Inl (RuntimeError (''Failed to initialize audio processing model: '' @
                            ''No module named df'')), p)
      else
        case init_attempts init_df [0, 1, 2] (p, None) of
          (p', last_err) \<Rightarrow>
            if \<not> initialized p' then
              (Inl (RuntimeError (''Failed to initialize audio processing model: '' @
                      ''Failed to initialize DeepFilterNet after retries: '' @
                      str_of_error last_err)), p')
            else (Inr (), p'))"

section \<open>Saving the result: \<open>save_audio\<close> and \<open>process_file\<close>\<close>

text \<open>
  A path is its directory, the stem of its file name and the suffix (with its dot, empty
  when there is none). \<open>with_suffix\<close> raises ValueError on an empty name. The disk is a
  map from paths to file sizes. \<open>lower\<close> is \<open>str.lower\<close> on ASCII.
\<close>

record py_path =
  parent_dir :: string
  stem :: string
  suffix :: string

type_synonym disk = "py_path \<rightharpoonup> nat"

definition lower_char :: "char \<Rightarrow> char" where
  "lower_char c =
     (case map_of (zip ''ABCDEFGHIJKLMNOPQRSTUVWXYZ'' ''abcdefghijklmnopqrstuvwxyz'') c of
        Some l \<Rightarrow> l
      | None \<Rightarrow> c)"

definition lower :: "string \<Rightarrow> string" where
  "lower s = map lower_char s"

definition with_suffix :: "py_path \<Rightarrow> string \<Rightarrow> py_path option" where
  "with_suffix p s = (if stem p = [] then None else Some (p\<lparr>suffix := s\<rparr>))"

text \<open>
  What the outside world does during one call of \<open>save_audio\<close>: whether \<open>mkdir\<close> raises;
  whether \<open>sf.write\<close> raises or writes a WAV file of some size; whether the conversion
  (the import of pydub, \<open>from_file\<close> and \<open>export\<close>) returns or raises, and which size the
  target file has afterwards (\<open>None\<close>: it does not exist); whether removing the
  intermediate WAV file raises.
\<close>

datatype export_outcome = ExportReturns "nat option" | ExportRaises "nat option"

record save_env =
  mkdir_raises :: bool
  sf_write :: "nat option"
  export :: export_outcome
  unlink_raises :: bool

definition set_file :: "py_path \<Rightarrow> nat option \<Rightarrow> disk \<Rightarrow> disk" where
  "set_file p file_size d = d(p := file_size)"

text \<open>The body of the outer \<open>try\<close> of \<open>save_audio\<close>; \<open>Inl ()\<close> is an exception that
  reaches the outer handler.\<close>

definition save_audio_try :: "save_env \<Rightarrow> disk \<Rightarrow> py_path \<Rightarrow> (unit + py_path) \<times> disk" where
  "save_audio_try env d output_path =
     (let target_path = output_path in
      if mkdir_raises env then (Inl (), d)
      else
        let target_ext = lower (suffix target_path) in
        case (if target_ext = ''.wav'' then Some target_path
              else with_suffix target_path ''.wav'') of
          None \<Rightarrow> (Inl (), d)
        | Some wav_path \<Rightarrow>
            (case sf_write env of
               None \<Rightarrow> (Inl (), d)
             | Some n \<Rightarrow>
                 let d1 = d(wav_path \<mapsto> n) in
                 if target_ext \<noteq> [] \<and> target_ext \<noteq> ''.wav'' then
                   (case export env of
                      ExportRaises left \<Rightarrow>
                        (Inr wav_path,
                         case left of None \<Rightarrow> d1 | Some k \<Rightarrow> d1(target_path \<mapsto> k))
                    | ExportReturns written \<Rightarrow>
                        let d2 = set_file target_path written d1;
                            file_size = (case d2 target_path of Some k \<Rightarrow> k | None \<Rightarrow> 0)
                        in if file_size > 0 then
                             (if unlink_raises env then (Inr wav_path, d2)
                              else (Inr target_path, d2(wav_path := None)))
                           else (Inr wav_path, d2))
                 else (Inr wav_path, d1)))"

definition save_audio :: "save_env \<Rightarrow> disk \<Rightarrow> py_path \<Rightarrow> (py_exception + py_path) \<times> disk" where
  "save_audio env d output_path =
     (case save_audio_try env d output_path of
        (Inl _, d') \<Rightarrow> (Inl (RuntimeError ''Failed to save audio file''), d')
      | (Inr final, d') \<Rightarrow> (Inr final, d'))"

text \<open>
  \<open>process_file\<close>. Loading gives the number of samples and the sample rate, or raises;
  enhancing raises or not; every exception ends in the failure result.
\<close>

record process_env =
  load_audio :: "(nat \<times> nat) option"
  enhance_raises :: bool
  save :: save_env

record success_result =
  duration_seconds :: real
  sample_rate :: nat
  output_size_bytes :: nat
  output_path :: py_path

datatype process_result = Success success_result | Failure

definition process_file ::
  "process_env \<Rightarrow> disk \<Rightarrow> py_path \<Rightarrow> py_path \<Rightarrow> process_result \<times> disk" where
  "process_file env d input_path requested_path =
     (case load_audio env of
        None \<Rightarrow> (Failure, d)
      | Some (n_samples, sr) \<Rightarrow>
          if sr = 0 then (Failure, d)
          else
            let original_duration = real n_samples / real sr in
            if enhance_raises env then (Failure, d)
            else
              (case save_audio (save env) d requested_path of
                 (Inl e, d') \<Rightarrow> (Failure, d')
               | (Inr final_output_path, d') \<Rightarrow>
                   (case d' final_output_path of
                      None \<Rightarrow> (Failure, d')
                    | Some output_size \<Rightarrow>
                        (Success \<lparr>duration_seconds = original_duration,
                                  sample_rate = sr,
                                  output_size_bytes = output_size,
                                  output_path = final_output_path\<rparr>, d'))))"

section \<open>Properties of slices and of the merge loop\<close>

lemma length_linspace01 [simp]: "length (linspace01 n) = n"
  by (simp add: linspace01_def)

lemma norm_index_int [simp]: "norm_index n (int i) = min i n"
  by (simp add: norm_index_def)

lemma norm_index_int_add [simp]: "norm_index n (int a + int b) = min (a + b) n"
  using norm_index_int [of n "a + b"] by (simp only: of_nat_add)

lemma set_slice_exact:
  assumes "a + length v \<le> length out"
  shows "set_slice out (int a) (int a + int (length v)) v =
           Some (take a out @ v @ drop (a + length v) out)"
  using assms unfolding set_slice_def Let_def by (simp add: max_def min_def)

lemma length_crossfade [simp]:
  "length cur = length prev \<Longrightarrow> length (crossfade prev cur) = length prev"
  by (simp add: crossfade_def)

lemma blend_overlap_exact:
  assumes "a + s \<le> length out" "s \<le> length chunk"
  shows "blend_overlap (int s) out (int a) (int a + int s) chunk =
           Some (take a out @
                 crossfade (take s (drop a out)) (take s chunk) @
                 drop (a + s) out)"
proof -
  have sl: "py_slice out (int a) (int a + int s) = take s (drop a out)"
    unfolding py_slice_def Let_def using assms by (simp add: min_def)
  have st: "py_slice_to chunk (int s) = take s chunk"
    using assms by (simp add: py_slice_to_def min_def)
  have l1: "length (take s (drop a out)) = s"
    using assms by simp
  have l2: "length (take s chunk) = s"
    using assms by simp
  let ?x = "crossfade (take s (drop a out)) (take s chunk)"
  have lx: "length ?x = s" using l1 l2 by simp
  have bl: "do {
        a \<leftarrow> np_binop (*) (take s (drop a out)) (map (\<lambda>w. 1 - w) (linspace01 s));
        b \<leftarrow> np_binop (*) (take s chunk) (linspace01 s);
        np_binop (+) a b } = Some ?x"
    using l1 l2 by (simp add: np_binop_def crossfade_def)
  have "set_slice out (int a) (int a + int (length ?x)) ?x
         = Some (take a out @ ?x @ drop (a + length ?x) out)"
    by (rule set_slice_exact) (use assms lx in simp)
  then have ss: "set_slice out (int a) (int a + int s) ?x
         = Some (take a out @ ?x @ drop (a + s) out)"
    unfolding lx .
  show ?thesis
    unfolding blend_overlap_def Let_def sl st nat_int
    using bl ss l1 l2 by (simp add: np_binop_def crossfade_def)
qed

lemma tail_len_simps [simp]:
  "tail_len s [] = 0" "tail_len s (c # cs) = (length c - s) + tail_len s cs"
  by (simp_all add: tail_len_def)

lemma length_stitch:
  "s \<le> length written \<Longrightarrow> \<forall>c\<in>set cs. s \<le> length c \<Longrightarrow>
   length (stitch s written cs) = length written + tail_len s cs"
proof (induction cs arbitrary: written)
  case Nil
  then show ?case by simp
next
  case (Cons c cs)
  let ?w = "take (length written - s) written @
            crossfade (drop (length written - s) written) (take s c) @ drop s c"
  have lx: "length (crossfade (drop (length written - s) written) (take s c)) = s"
    using Cons.prems by simp
  have lw: "length ?w = length written + (length c - s)"
    using Cons.prems lx by simp
  have "length (stitch s ?w cs) = length ?w + tail_len s cs"
    by (rule Cons.IH) (use Cons.prems lw in auto)
  then show ?case using lw by simp
qed

lemma merge_loop_step:
  assumes "length c = s + r" "a + s + r \<le> length out" "idx \<noteq> 0"
  shows "merge_loop (int s) idx (c # cs) (out, int (a + s)) =
           merge_loop (int s) (Suc idx) cs
             (take a out @ crossfade (take s (drop a out)) (take s c) @
              drop s c @ drop (a + s + r) out, int (a + s + r))"
proof -
  let ?x = "crossfade (take s (drop a out)) (take s c)"
  let ?out1 = "take a out @ ?x @ drop (a + s) out"
  have lx: "length ?x = s" using assms by simp
  have lr: "length (drop s c) = r" using assms by simp
  have out1: "(if 0 < int s then blend_overlap (int s) out (int a) (int a + int s) c else Some out)
               = Some ?out1"
  proof (cases "s = 0")
    case True
    then show ?thesis by (simp add: crossfade_def)
  next
    case False
    have "blend_overlap (int s) out (int a) (int a + int s) c =
            Some (take a out @ ?x @ drop (a + s) out)"
      by (rule blend_overlap_exact) (use assms in simp_all)
    then show ?thesis using False by simp
  qed
  have l1: "length ?out1 = length out" using assms lx by simp
  have rem: "py_slice_from c (int s) = drop s c"
    using assms by (simp add: py_slice_from_def min_def)
  have "set_slice ?out1 (int (a + s)) (int (a + s) + int (length (drop s c))) (drop s c) =
          Some (take (a + s) ?out1 @ drop s c @ drop (a + s + length (drop s c)) ?out1)"
    by (rule set_slice_exact) (use assms l1 lr in simp)
  moreover have "take (a + s) ?out1 = take a out @ ?x"
    using assms lx by simp
  moreover have "drop (a + s + r) ?out1 = drop (a + s + r) out"
    using assms lx by (simp add: add.commute add.left_commute)
  ultimately have ss: "set_slice ?out1 (int (a + s)) (int (a + s) + int r) (drop s c) =
          Some (take a out @ ?x @ drop s c @ drop (a + s + r) out)"
    unfolding lr by simp
  have st: "int (a + s) - int s = int a" by simp
  have e: "int a + int s + int r = int (a + s) + int r" "int a + int s = int (a + s)"
    "int (a + s + r) = int (a + s) + int r"
    by simp_all
  show ?thesis
    unfolding merge_loop.simps Let_def st rem lr e(1) e(3)
    using assms(3) out1 ss unfolding e(2)
    by (simp del: of_nat_add)
qed

lemma merge_loop_tail:
  assumes "s \<le> wp" "\<forall>c\<in>set cs. s \<le> length c" "wp + tail_len s cs \<le> length out" "idx \<noteq> 0"
  shows "merge_loop (int s) idx cs (out, int wp) =
           Some (stitch s (take wp out) cs @ drop (wp + tail_len s cs) out,
                 int (wp + tail_len s cs))"
  using assms
proof (induction cs arbitrary: out wp idx)
  case Nil
  then show ?case by simp
next
  case (Cons c cs)
  obtain a where a: "wp = a + s" using Cons.prems(1) by (metis le_add_diff_inverse2)
  obtain r where r: "length c = s + r" using Cons.prems(2) by (metis le_add_diff_inverse list.set_intros(1))
  let ?wp' = "a + s + r"
  let ?x = "crossfade (take s (drop a out)) (take s c)"
  let ?out2 = "take a out @ ?x @ drop s c @ drop ?wp' out"
  have tl: "tail_len s (c # cs) = r + tail_len s cs" using r by simp
  have bound: "a + s + r + tail_len s cs \<le> length out"
    using Cons.prems(3) unfolding tl a by simp
  have lx: "length ?x = s" using bound r by simp
  have l2: "length ?out2 = length out" using bound lx r by simp
  have step: "merge_loop (int s) idx (c # cs) (out, int (a + s)) =
                merge_loop (int s) (Suc idx) cs (?out2, int ?wp')"
    by (rule merge_loop_step) (use Cons.prems r bound in simp_all)
  have ih: "merge_loop (int s) (Suc idx) cs (?out2, int ?wp') =
          Some (stitch s (take ?wp' ?out2) cs @ drop (?wp' + tail_len s cs) ?out2,
                int (?wp' + tail_len s cs))"
    by (rule Cons.IH) (use Cons.prems l2 bound in simp_all)
  have t: "take ?wp' ?out2 = take a out @ ?x @ drop s c"
    using bound lx r by simp
  have d: "drop (?wp' + tail_len s cs) ?out2 = drop (?wp' + tail_len s cs) out"
    using bound lx r by (simp add: add.commute add.left_commute)
  have w: "length (take (a + s) out) = a + s" using bound by simp
  have t1: "take a (take (a + s) out) = take a out" by simp
  have t2: "drop a (take (a + s) out) = take s (drop a out)"
    by (simp add: drop_take)
  have st: "stitch s (take (a + s) out) (c # cs) = stitch s (take a out @ ?x @ drop s c) cs"
    unfolding stitch.simps w using t1 t2 by simp
  show ?case
    unfolding a step ih t d st tl
    by (simp add: add.assoc)
qed

lemma int_tail_len:
  "\<forall>c\<in>set cs. s \<le> length c \<Longrightarrow>
   int (tail_len s cs) = sum_list (chunk_lens cs) - int s * int (length cs)"
  by (induction cs) (simp_all add: chunk_lens_def algebra_simps)

lemma min_list_chunk_lens:
  assumes "chunks \<noteq> []"
  shows "0 \<le> min_list (chunk_lens chunks)"
    and "\<forall>c\<in>set chunks. min_list (chunk_lens chunks) \<le> int (length c)"
proof -
  have ne: "chunk_lens chunks \<noteq> []" using assms by (simp add: chunk_lens_def)
  have m: "min_list (chunk_lens chunks) = Min (set (chunk_lens chunks))"
    using ne by (rule min_list_Min)
  have "Min (set (chunk_lens chunks)) \<in> set (chunk_lens chunks)"
    using ne by (intro Min_in) simp_all
  then show "0 \<le> min_list (chunk_lens chunks)"
    unfolding m by (auto simp: chunk_lens_def)
  show "\<forall>c\<in>set chunks. min_list (chunk_lens chunks) \<le> int (length c)"
    unfolding m by (auto simp: chunk_lens_def intro!: Min_le)
qed

lemma safe_overlap_le:
  assumes "chunks \<noteq> []"
  shows "\<forall>c\<in>set chunks. 2 * safe_overlap chunks ov \<le> length c"
proof
  fix c assume c: "c \<in> set chunks"
  have "min_list (chunk_lens chunks) \<le> int (length c)"
    using min_list_chunk_lens(2) [OF assms] c by blast
  then show "2 * safe_overlap chunks ov \<le> length c"
    unfolding safe_overlap_def by linarith
qed

lemma int_safe_overlap:
  assumes "chunks \<noteq> []" "0 < ov"
  shows "int (safe_overlap chunks ov) = min ov (min_list (chunk_lens chunks) div 2)"
  using min_list_chunk_lens(1) [OF assms(1)] assms(2)
  unfolding safe_overlap_def by simp

lemma merge_chunks_stitch:
  assumes "cs \<noteq> []" "0 < ov"
  shows "merge_chunks (c0 # cs) ov = Some (stitch (safe_overlap (c0 # cs) ov) c0 cs)"
proof -
  let ?chunks = "c0 # cs"
  let ?s = "safe_overlap ?chunks ov"
  let ?total = "length c0 + tail_len ?s cs"
  let ?zeros = "replicate ?total (0::real)"
  have le2: "\<forall>c\<in>set ?chunks. 2 * ?s \<le> length c"
    by (rule safe_overlap_le) simp
  then have le: "\<forall>c\<in>set cs. ?s \<le> length c" and le0: "?s \<le> length c0"
    by auto
  have iso: "min ov (min_list (chunk_lens ?chunks) div 2) = int ?s"
    using int_safe_overlap [of ?chunks ov] assms by simp
  have tot: "sum_list (chunk_lens ?chunks) - int ?s * (int (length ?chunks) - 1) = int ?total"
    using int_tail_len [OF le] by (simp add: chunk_lens_def)
  have tot': "sum_list (chunk_lens ?chunks) - int ?s * int (length cs) = int ?total"
    using tot by simp
  have tot'': "\<not> sum_list (chunk_lens ?chunks) < int ?s * int (length cs)"
    using tot' by linarith
  have first: "set_slice ?zeros (int 0) (int 0 + int (length c0)) c0 =
                 Some (take 0 ?zeros @ c0 @ drop (0 + length c0) ?zeros)"
    by (rule set_slice_exact) simp
  let ?out1 = "c0 @ drop (length c0) ?zeros"
  have first': "set_slice ?zeros 0 (int (length c0)) c0 = Some ?out1"
    using first by simp
  have l1: "length ?out1 = ?total" by simp
  have rest: "merge_loop (int ?s) (Suc 0) cs (?out1, int (length c0)) =
          Some (stitch ?s (take (length c0) ?out1) cs @ drop (length c0 + tail_len ?s cs) ?out1,
                int (length c0 + tail_len ?s cs))"
    by (rule merge_loop_tail) (use le le0 l1 in simp_all)
  have loop: "merge_loop (int ?s) 0 ?chunks (?zeros, 0) = Some (stitch ?s c0 cs, int ?total)"
    using first' rest by simp
  have pm: "py_min (chunk_lens ?chunks) = Some (min_list (chunk_lens ?chunks))"
    by (simp add: py_min_def chunk_lens_def)
  have k: "\<not> (length ?chunks = 1 \<or> ov \<le> 0)" using assms by simp
  show ?thesis
    unfolding merge_chunks_def pm Let_def
    using k loop tot' tot'' by (simp add: iso del: merge_loop.simps of_nat_add)
qed

lemma stitch_nth_prefix:
  "s \<le> length w \<Longrightarrow> \<forall>c\<in>set cs. s \<le> length c \<Longrightarrow> j + s < length w \<Longrightarrow>
   stitch s w cs ! j = w ! j"
proof (induction cs arbitrary: w)
  case Nil
  then show ?case by simp
next
  case (Cons c cs)
  let ?w = "take (length w - s) w @ crossfade (drop (length w - s) w) (take s c) @ drop s c"
  have lx: "length (crossfade (drop (length w - s) w) (take s c)) = s"
    using Cons.prems by simp
  have lw: "length ?w = length w + (length c - s)"
    using Cons.prems lx by simp
  have "stitch s ?w cs ! j = ?w ! j"
    by (rule Cons.IH) (use Cons.prems lw in auto)
  moreover have "?w ! j = w ! j"
  proof -
    have "j < length w - s" using Cons.prems by linarith
    then show ?thesis by (simp add: nth_append)
  qed
  ultimately show ?case by simp
qed

lemma stitch_nth_chunk:
  assumes "s \<le> length w" "\<forall>c\<in>set cs. s \<le> length c" "i < length cs"
    "s \<le> j" "j < length (cs ! i)" "Suc i = length cs \<or> j + s < length (cs ! i)"
  shows "stitch s w cs ! (length w - s + tail_len s (take i cs) + j) = cs ! i ! j"
  using assms
proof (induction cs arbitrary: w i)
  case Nil
  then show ?case by simp
next
  case (Cons c cs)
  let ?x = "crossfade (drop (length w - s) w) (take s c)"
  let ?w = "take (length w - s) w @ ?x @ drop s c"
  have sc: "s \<le> length c" using Cons.prems by simp
  have lx: "length ?x = s"
    using Cons.prems by simp
  have lw: "length ?w = length w - s + length c"
    using Cons.prems lx by simp
  show ?case
  proof (cases i)
    case 0
    have lt: "length (take (length w - s) w) = length w - s" by simp
    have "?w ! (length w - s + j) = (?x @ drop s c) ! j"
      using nth_append_length_plus [of "take (length w - s) w" "?x @ drop s c" j]
      unfolding lt by simp
    also have "\<dots> = drop s c ! (j - s)"
      using lx Cons.prems(4) by (simp add: nth_append)
    also have "\<dots> = c ! j"
      using Cons.prems(4) sc by simp
    finally have here: "?w ! (length w - s + j) = c ! j" .
    show ?thesis
    proof (cases "cs = []")
      case True
      then show ?thesis using 0 here by simp
    next
      case False
      then have "j + s < length c" using Cons.prems 0 by simp
      then have "stitch s ?w cs ! (length w - s + j) = ?w ! (length w - s + j)"
        by (intro stitch_nth_prefix) (use Cons.prems lw in auto)
      then show ?thesis using 0 here by simp
    qed
  next
    case (Suc i')
    have "stitch s ?w cs ! (length ?w - s + tail_len s (take i' cs) + j) = cs ! i' ! j"
      by (rule Cons.IH) (use Cons.prems Suc lw in auto)
    moreover have "length ?w - s = length w - s + (length c - s)"
      unfolding lw using sc by simp
    ultimately show ?thesis using Suc by (simp add: add.assoc)
  qed
qed

lemma stitch_copies:
  assumes "\<forall>c\<in>set (c0 # cs). s \<le> length c" "i < length (c0 # cs)"
    "j < length ((c0 # cs) ! i)" "i = 0 \<or> s \<le> j"
    "Suc i = length (c0 # cs) \<or> j + s < length ((c0 # cs) ! i)"
  shows "stitch s c0 cs ! (chunk_offset s (c0 # cs) i + j) = (c0 # cs) ! i ! j"
proof (cases i)
  case 0
  show ?thesis
  proof (cases "cs = []")
    case True
    then show ?thesis using 0 by (simp add: chunk_offset_def)
  next
    case False
    then have "j + s < length c0" using assms 0 by simp
    then have "stitch s c0 cs ! j = c0 ! j"
      by (intro stitch_nth_prefix) (use assms in auto)
    then show ?thesis using 0 by (simp add: chunk_offset_def)
  qed
next
  case (Suc i')
  have "stitch s c0 cs ! (length c0 - s + tail_len s (take i' cs) + j) = cs ! i' ! j"
    by (rule stitch_nth_chunk) (use assms Suc in auto)
  then show ?thesis using Suc by (simp add: chunk_offset_def add.assoc)
qed

lemma merge_chunks_total:
  assumes "chunks \<noteq> []" "0 < ov"
  shows "\<exists>out. merge_chunks chunks ov = Some out \<and>
           int (length out) = sum_list (chunk_lens chunks)
               - int (safe_overlap chunks ov) * (int (length chunks) - 1) \<and>
           (\<forall>i<length chunks. \<forall>j<length (chunks ! i).
              (i = 0 \<or> safe_overlap chunks ov \<le> j) \<and>
              (Suc i = length chunks \<or> j + safe_overlap chunks ov < length (chunks ! i)) \<longrightarrow>
              out ! (chunk_offset (safe_overlap chunks ov) chunks i + j) = chunks ! i ! j)"
proof -
  obtain c0 cs where ch: "chunks = c0 # cs" using assms(1) by (cases chunks) auto
  let ?s = "safe_overlap chunks ov"
  have le2: "\<forall>c\<in>set chunks. 2 * ?s \<le> length c"
    by (rule safe_overlap_le) (rule assms(1))
  then have le: "\<forall>c\<in>set (c0 # cs). ?s \<le> length c" unfolding ch by auto
  show ?thesis
  proof (cases "cs = []")
    case True
    then have "merge_chunks chunks ov = Some c0"
      by (simp add: merge_chunks_def ch)
    then show ?thesis using True ch by (simp add: chunk_lens_def chunk_offset_def)
  next
    case False
    have m: "merge_chunks chunks ov = Some (stitch ?s c0 cs)"
      unfolding ch by (rule merge_chunks_stitch) (use False assms in auto)
    have "length (stitch ?s c0 cs) = length c0 + tail_len ?s cs"
      by (rule length_stitch) (use le in auto)
    moreover have "int (tail_len ?s cs) = sum_list (chunk_lens cs) - int ?s * int (length cs)"
      by (rule int_tail_len) (use le in auto)
    ultimately have len: "int (length (stitch ?s c0 cs)) =
        sum_list (chunk_lens chunks) - int ?s * (int (length chunks) - 1)"
      unfolding ch by (simp add: chunk_lens_def)
    have cp: "\<forall>i<length chunks. \<forall>j<length (chunks ! i).
              (i = 0 \<or> ?s \<le> j) \<and> (Suc i = length chunks \<or> j + ?s < length (chunks ! i)) \<longrightarrow>
              stitch ?s c0 cs ! (chunk_offset ?s chunks i + j) = chunks ! i ! j"
      using stitch_copies [OF le] unfolding ch by blast
    show ?thesis using m len cp by blast
  qed
qed

section \<open>C4: length of the merged buffer and the samples copied unchanged\<close>

text \<open>
  C4, as amended: for every nonempty list of chunks and every nominal overlap \<open>O > 0\<close>,
  \<open>_merge_chunks\<close> returns a buffer (it does not raise) whose length is the sum of the
  chunk lengths minus \<open>overlap'\<close> for each of the boundaries, where \<open>overlap'\<close> is one value
  for all boundaries: the minimum of \<open>O\<close> and half of the length of the shortest chunk of
  the whole list. Every sample outside the blended regions (not among the first
  \<open>overlap'\<close> samples of a chunk after the first, nor among the last \<open>overlap'\<close> samples of
  a chunk before the last) is found unchanged in the output, at the chunk's offset plus
  its index in the chunk.
\<close>

theorem merge_chunks_length_and_copies:
  assumes "chunks \<noteq> []" "0 < overlap_samples"
  shows "\<exists>out. merge_chunks chunks overlap_samples = Some out \<and>
           int (length out) = sum_list (chunk_lens chunks)
               - int (safe_overlap chunks overlap_samples) * (int (length chunks) - 1) \<and>
           (\<forall>i<length chunks. \<forall>j<length (chunks ! i).
              (i = 0 \<or> safe_overlap chunks overlap_samples \<le> j) \<and>
              (Suc i = length chunks \<or>
               j + safe_overlap chunks overlap_samples < length (chunks ! i)) \<longrightarrow>
              out ! (chunk_offset (safe_overlap chunks overlap_samples) chunks i + j)
                = chunks ! i ! j)"
  using assms by (rule merge_chunks_total)

text \<open>Three chunks of four samples, nominal overlap 2: eight samples come out, the
  first and the last of them copied.\<close>

theorem merge_chunks_length_and_copies_witness:
  "map_option length (merge_chunks [[1,2,3,4],[5,6,7,8],[9,10,11,12]] 2) = Some 8 \<and>
   map_option (\<lambda>out. (out ! 0, out ! 7))
     (merge_chunks [[1,2,3,4],[5,6,7,8],[9,10,11,12]] 2) = Some (1, 12)"
proof -
  let ?chunks = "[[1,2,3,4],[5,6,7,8],[9,10,11,12::real]]"
  have s: "safe_overlap ?chunks 2 = 2"
    by (simp add: safe_overlap_def chunk_lens_def)
  have o0: "chunk_offset 2 ?chunks 0 = 0" and o2: "chunk_offset 2 ?chunks 2 = 4"
    by (simp_all add: chunk_offset_def)
  obtain out where m: "merge_chunks ?chunks 2 = Some out"
    and len: "int (length out) = sum_list (chunk_lens ?chunks)
               - int (safe_overlap ?chunks 2) * (int (length ?chunks) - 1)"
    and cp: "\<forall>i<length ?chunks. \<forall>j<length (?chunks ! i).
              (i = 0 \<or> safe_overlap ?chunks 2 \<le> j) \<and>
              (Suc i = length ?chunks \<or> j + safe_overlap ?chunks 2 < length (?chunks ! i)) \<longrightarrow>
              out ! (chunk_offset (safe_overlap ?chunks 2) ?chunks i + j) = ?chunks ! i ! j"
    using merge_chunks_length_and_copies [of ?chunks 2] by auto
  have l: "length out = 8" using len unfolding s by (simp add: chunk_lens_def)
  have "out ! (chunk_offset 2 ?chunks 0 + 0) = ?chunks ! 0 ! 0"
    using cp [unfolded s, rule_format, of 0 0] by simp
  then have a: "out ! 0 = 1" unfolding o0 by simp
  have "out ! (chunk_offset 2 ?chunks 2 + 3) = ?chunks ! 2 ! 3"
    using cp [unfolded s, rule_format, of 2 3] by simp
  then have b: "out ! 7 = 12" unfolding o2 by simp
  show ?thesis using m l a b by simp
qed

text \<open>
  As stated, with a clamp per boundary, the claim fails: for chunks of 4, 4 and 2
  samples and nominal overlap 2 the per-boundary overlaps would be 2 and 1, a length of
  7; the merger clamps both boundaries to 1 and returns 8 samples.
\<close>

theorem merge_chunks_per_boundary_counterexample:
  "merge_chunks [[1,2,3,4],[5,6,7,8],[9,10]] 2 = Some [1,2,3,4,6,7,8,10] \<and>
   merged_length_spec 2 [[1,2,3,4],[5,6,7,8],[9,10]] = 7 \<and>
   int (length [1,2,3,4,6,7,8,10::real]) \<noteq> merged_length_spec 2 [[1,2,3,4],[5,6,7,8],[9,10]]"
  by code_simp

section \<open>C9: merging no chunks\<close>

text \<open>C9: merging an empty list of chunks gives the empty buffer, for every overlap
  value (positive, zero or negative); no exception is raised.\<close>

theorem merge_chunks_empty: "merge_chunks [] overlap_samples = Some []"
  by (simp add: merge_chunks_def)

section \<open>The chunking loop, unfolded\<close>

lemma chunk_loop_done:
  "\<not> start < int (length audio) \<Longrightarrow> chunk_loop enh audio C ov start acc = Some acc"
  by (subst chunk_loop.simps) simp

lemma chunk_loop_last:
  "start < int (length audio) \<Longrightarrow> int (length audio) \<le> start + C \<Longrightarrow>
   chunk_loop enh audio C ov start acc =
     Some (acc @ [\<lparr>w_start = start, w_end = int (length audio),
                    w_chunk = enh (py_slice audio start (int (length audio)))\<rparr>])"
  by (subst chunk_loop.simps) (simp add: Let_def min_def)

lemma chunk_loop_more:
  "start < int (length audio) \<Longrightarrow> start + C < int (length audio) \<Longrightarrow>
   chunk_loop enh audio C ov start acc =
     chunk_loop enh audio C ov (if ov > 0 then start + C - ov else start + C)
       (acc @ [\<lparr>w_start = start, w_end = start + C,
                 w_chunk = enh (py_slice audio start (start + C))\<rparr>])"
  by (subst chunk_loop.simps) (simp add: Let_def min_def)

lemma chunk_loop_windows:
  assumes "0 < C" "0 \<le> ov" "ov < C" "0 \<le> start" "start < int (length audio)"
  shows "\<exists>ws. chunk_loop enh audio C ov start acc = Some (acc @ ws) \<and> ws \<noteq> [] \<and>
           w_start (hd ws) = start \<and> w_end (last ws) = int (length audio) \<and>
           sorted_wrt (<) (map w_start ws) \<and>
           successively (\<lambda>a b. w_start b = w_end a - ov) ws \<and>
           (\<forall>w\<in>set ws. w_chunk w = enh (py_slice audio (w_start w) (w_end w)) \<and>
              start \<le> w_start w \<and> w_start w < w_end w \<and> w_end w \<le> int (length audio)) \<and>
           (\<forall>w\<in>set (butlast ws). w_end w = w_start w + C)"
  using assms(4,5)
proof (induction "nat (int (length audio) - start)" arbitrary: start acc rule: less_induct)
  case less
  let ?N = "int (length audio)"
  show ?case
  proof (cases "?N \<le> start + C")
    case True
    then show ?thesis
      using less.prems by (simp add: chunk_loop_last)
  next
    case False
    let ?w = "\<lparr>w_start = start, w_end = start + C,
                 w_chunk = enh (py_slice audio start (start + C))\<rparr>"
    let ?start' = "start + C - ov"
    have nx: "(if ov > 0 then start + C - ov else start + C) = ?start'"
      using assms(2) by simp
    have step: "chunk_loop enh audio C ov start acc = chunk_loop enh audio C ov ?start' (acc @ [?w])"
      using chunk_loop_more [of start audio C enh ov acc] less.prems False unfolding nx by simp
    have "\<exists>ws. chunk_loop enh audio C ov ?start' (acc @ [?w]) = Some ((acc @ [?w]) @ ws) \<and> ws \<noteq> [] \<and>
           w_start (hd ws) = ?start' \<and> w_end (last ws) = ?N \<and>
           sorted_wrt (<) (map w_start ws) \<and>
           successively (\<lambda>a b. w_start b = w_end a - ov) ws \<and>
           (\<forall>w\<in>set ws. w_chunk w = enh (py_slice audio (w_start w) (w_end w)) \<and>
              ?start' \<le> w_start w \<and> w_start w < w_end w \<and> w_end w \<le> ?N) \<and>
           (\<forall>w\<in>set (butlast ws). w_end w = w_start w + C)"
      by (rule less.hyps) (use assms less.prems False in simp_all)
    then obtain ws where ws: "chunk_loop enh audio C ov ?start' (acc @ [?w]) = Some ((acc @ [?w]) @ ws)"
      "ws \<noteq> []" "w_start (hd ws) = ?start'" "w_end (last ws) = ?N"
      "sorted_wrt (<) (map w_start ws)" "successively (\<lambda>a b. w_start b = w_end a - ov) ws"
      "\<forall>w\<in>set ws. w_chunk w = enh (py_slice audio (w_start w) (w_end w)) \<and>
              ?start' \<le> w_start w \<and> w_start w < w_end w \<and> w_end w \<le> ?N"
      "\<forall>w\<in>set (butlast ws). w_end w = w_start w + C"
      by blast
    have gt: "start < ?start'" using assms by simp
    have s1: "sorted_wrt (<) (map w_start (?w # ws))"
      using ws(5,7) gt by auto
    have s2: "successively (\<lambda>a b. w_start b = w_end a - ov) (?w # ws)"
      using ws(2,3,6) by (cases ws) simp_all
    have s3: "\<forall>w\<in>set (?w # ws). w_chunk w = enh (py_slice audio (w_start w) (w_end w)) \<and>
              start \<le> w_start w \<and> w_start w < w_end w \<and> w_end w \<le> ?N"
      using ws(7) gt assms(1) False by auto
    have s4: "\<forall>w\<in>set (butlast (?w # ws)). w_end w = w_start w + C"
      using ws(2,8) by simp
    show ?thesis
      using step ws(1,2,4) s1 s2 s3 s4
      by (intro exI [of _ "?w # ws"]) simp
  qed
qed

lemma length_py_slice:
  "0 \<le> a \<Longrightarrow> a \<le> b \<Longrightarrow> b \<le> int (length xs) \<Longrightarrow> length (py_slice xs a b) = nat (b - a)"
  by (simp add: py_slice_def norm_index_def Let_def)

section \<open>C7: the chunking loop terminates\<close>

text \<open>
  C7: for every nonempty input, every chunk size \<open>C > 0\<close> and every overlap \<open>O \<ge> 0\<close>
  (also \<open>O \<ge> C\<close>) the chunking loop returns: it yields a nonempty list of windows whose
  starts strictly increase, each window after the first starting
  \<open>min O (C div 4)\<close> samples before the end of the one before it; the first window
  starts at 0 and the last one ends at the end of the input.
\<close>

theorem chunk_loop_terminates_with_progress:
  assumes "audio \<noteq> []" "0 < C" "0 \<le> overlap"
  shows "\<exists>ws. plan_windows enh C overlap audio = Some ws \<and> ws \<noteq> [] \<and>
           w_start (hd ws) = 0 \<and> w_end (last ws) = int (length audio) \<and>
           sorted_wrt (<) (map w_start ws) \<and>
           successively (\<lambda>a b. w_start b = w_end a - min overlap (C div 4)) ws"
proof -
  have "0 \<le> min overlap (C div 4)" "min overlap (C div 4) < C"
    using assms by simp_all
  moreover have "(0::int) < int (length audio)" using assms(1) by simp
  ultimately obtain ws where
      "chunk_loop enh audio C (min overlap (C div 4)) 0 [] = Some ([] @ ws)"
      "ws \<noteq> []" "w_start (hd ws) = 0" "w_end (last ws) = int (length audio)"
      "sorted_wrt (<) (map w_start ws)"
      "successively (\<lambda>a b. w_start b = w_end a - min overlap (C div 4)) ws"
    using assms(2) chunk_loop_windows [of C "min overlap (C div 4)" 0 audio enh "[]"]
    by auto
  then show ?thesis by (auto simp: plan_windows_def)
qed

text \<open>Nine samples, chunks of eight, a nominal overlap of 100: two windows, starting at
  0 and at 6.\<close>

theorem chunk_loop_terminates_with_progress_witness:
  "replicate 9 (0::real) \<noteq> [] \<and> (0::int) < 8 \<and> (0::int) \<le> 100 \<and>
   map_option (map w_start) (plan_windows (\<lambda>xs. xs) 8 100 (replicate 9 0)) = Some [0, 6]"
proof -
  have e: "plan_windows (\<lambda>xs. xs) 8 100 (replicate 9 0) =
     Some [\<lparr>w_start = 0, w_end = 8, w_chunk = replicate 8 0\<rparr>,
           \<lparr>w_start = 6, w_end = 9, w_chunk = replicate 3 0\<rparr>]"
    by (simp add: plan_windows_def chunk_loop_more chunk_loop_last py_slice_def norm_index_def)
  have "\<exists>ws. plan_windows (\<lambda>xs. xs) 8 100 (replicate 9 (0::real)) = Some ws \<and> ws \<noteq> [] \<and>
           w_start (hd ws) = 0 \<and> w_end (last ws) = int (length (replicate 9 (0::real))) \<and>
           sorted_wrt (<) (map w_start ws) \<and>
           successively (\<lambda>a b. w_start b = w_end a - min 100 (8 div 4)) ws"
    by (rule chunk_loop_terminates_with_progress) simp_all
  then show ?thesis using e by simp
qed

section \<open>C3: chunking and merging do not always give back the input length\<close>

text \<open>
  C3 fails on the code. The chunk loop steps back by the overlap \<open>O\<close>, the merger
  removes \<open>min O (shortest div 2)\<close> per boundary: when the last chunk is shorter than
  \<open>2 * O\<close> the merged buffer is longer than the input. Here \<open>N = 9\<close>, \<open>C = 8\<close> and \<open>O = 2\<close>
  (so \<open>N > C > 0\<close> and \<open>0 < O \<le> C / 4\<close>) with an identity model call: ten samples are
  returned, sample 8 twice.
\<close>

theorem enhance_stage_short_last_chunk:
  "enhance_stage (\<lambda>xs. xs) (Some 8) 2 [1,2,3,4,5,6,7,8,9] = Some (Some [1,2,3,4,5,6,7,8,8,9])"
proof -
  have w: "plan_windows (\<lambda>xs. xs) 8 2 [1,2,3,4,5,6,7,8,9] =
     Some [\<lparr>w_start = 0, w_end = 8, w_chunk = [1,2,3,4,5,6,7,8]\<rparr>,
           \<lparr>w_start = 6, w_end = 9, w_chunk = [7,8,9]\<rparr>]"
    by (simp add: plan_windows_def chunk_loop_more chunk_loop_last py_slice_def norm_index_def)
  have m: "merge_chunks [[1,2,3,4,5,6,7,8],[7,8,9]] 2 = Some [1,2,3,4,5,6,7,8,8,9]"
    by code_simp
  show ?thesis by (simp add: enhance_stage_def w m)
qed

text \<open>
  The same happens at production settings (48 kHz, chunks of 30 s, an overlap of 0.05 s)
  for an input of 2,878,200 samples, whose last window has 3,000 samples: 2,880,000
  samples come back.
\<close>

lemma enhance_stage_short_tail_48k:
  assumes "length audio = 2878200" "\<And>xs. length (enh xs) = length xs"
  shows "\<exists>out. enhance_stage enh (Some 1440000) 2400 audio = Some (Some out) \<and>
           length out = 2880000"
proof -
  let ?chunks = "[enh (py_slice audio 0 1440000), enh (py_slice audio 1437600 2877600),
                  enh (py_slice audio 2875200 2878200)]"
  have w: "plan_windows enh 1440000 2400 audio =
     Some [\<lparr>w_start = 0, w_end = 1440000, w_chunk = enh (py_slice audio 0 1440000)\<rparr>,
           \<lparr>w_start = 1437600, w_end = 2877600, w_chunk = enh (py_slice audio 1437600 2877600)\<rparr>,
           \<lparr>w_start = 2875200, w_end = 2878200, w_chunk = enh (py_slice audio 2875200 2878200)\<rparr>]"
    using assms(1) by (simp add: plan_windows_def chunk_loop_more chunk_loop_last)
  have lens: "chunk_lens ?chunks = [1440000, 1440000, 3000]"
    using assms by (simp add: chunk_lens_def length_py_slice)
  have s: "safe_overlap ?chunks 2400 = 1500"
    unfolding safe_overlap_def lens by simp
  obtain out where m: "merge_chunks ?chunks 2400 = Some out"
    and l: "int (length out) = sum_list (chunk_lens ?chunks)
               - int (safe_overlap ?chunks 2400) * (int (length ?chunks) - 1)"
    using merge_chunks_total [of ?chunks 2400] by auto
  have "length out = 2880000" using l unfolding s lens by simp
  then show ?thesis
    using m assms(1) by (simp add: enhance_stage_def w)
qed

text \<open>
  The defect is confined to a short last chunk: when the last chunk has at least
  \<open>2 * O\<close> samples, chunking and merging give back exactly the input length.
\<close>

lemma sum_window_lengths:
  "ws \<noteq> [] \<Longrightarrow> successively (\<lambda>a b. w_start b = w_end a - ov) ws \<Longrightarrow>
   (\<Sum>w\<leftarrow>ws. w_end w - w_start w) =
     w_end (last ws) - w_start (hd ws) + ov * (int (length ws) - 1)"
proof (induction ws rule: induct_list012)
  case 1
  then show ?case by simp
next
  case (2 x)
  then show ?case by simp
next
  case (3 x y zs)
  then show ?case by (simp add: algebra_simps)
qed

lemma enhance_stage_roundtrip:
  assumes shape: "\<And>xs. length (enh xs) = length xs"
    and "0 < C" "C < int (length audio)" "0 < overlap" "overlap \<le> C div 4"
    and plan: "plan_windows enh C overlap audio = Some ws"
    and tail: "2 * overlap \<le> int (length (w_chunk (last ws)))"
  shows "\<exists>out. enhance_stage enh (Some C) overlap audio = Some (Some out) \<and>
           length out = length audio"
proof -
  let ?N = "int (length audio)"
  have ov: "min overlap (C div 4) = overlap" using assms by simp
  have "0 < ?N" using assms(2,3) by linarith
  moreover have "0 \<le> overlap" "overlap < C" "(0::int) \<le> 0" using assms(2,4,5) by simp_all
  ultimately obtain vs where
      "chunk_loop enh audio C overlap 0 [] = Some ([] @ vs)"
      and ne: "vs \<noteq> []" and hd: "w_start (hd vs) = 0" and lst: "w_end (last vs) = ?N"
      and succ: "successively (\<lambda>a b. w_start b = w_end a - overlap) vs"
      and each: "\<forall>w\<in>set vs. w_chunk w = enh (py_slice audio (w_start w) (w_end w)) \<and>
              0 \<le> w_start w \<and> w_start w < w_end w \<and> w_end w \<le> ?N"
      and full: "\<forall>w\<in>set (butlast vs). w_end w = w_start w + C"
    using assms(2) chunk_loop_windows [of C overlap 0 audio enh "[]"] by auto
  then have vs: "vs = ws" using plan by (simp add: plan_windows_def ov)
  let ?chunks = "map w_chunk ws"
  have len: "\<forall>w\<in>set ws. int (length (w_chunk w)) = w_end w - w_start w"
    using each shape unfolding vs by (auto simp: length_py_slice)
  have lens: "chunk_lens ?chunks = map (\<lambda>w. w_end w - w_start w) ws"
    using len by (simp add: chunk_lens_def)
  have total: "sum_list (chunk_lens ?chunks) = ?N + overlap * (int (length ws) - 1)"
    unfolding lens using sum_window_lengths [OF ne succ] hd lst unfolding vs by simp
  have big: "\<forall>c\<in>set ?chunks. 2 * overlap \<le> int (length c)"
  proof
    fix c assume "c \<in> set ?chunks"
    then obtain w where w: "w \<in> set ws" "c = w_chunk w" by auto
    have "ws = butlast ws @ [last ws]" using ne vs by simp
    then have "w \<in> set (butlast ws) \<or> w = last ws"
      using w(1) by (metis Un_iff empty_iff insert_iff list.set(1) list.set(2) set_append)
    then show "2 * overlap \<le> int (length c)"
    proof
      assume "w \<in> set (butlast ws)"
      then have "w_end w - w_start w = C" using full vs by auto
      then have "int (length c) = C" using len w by simp
      then show ?thesis using assms(5) by linarith
    next
      assume "w = last ws"
      then show ?thesis using tail w by simp
    qed
  qed
  have cne: "?chunks \<noteq> []" using ne vs by simp
  have "chunk_lens ?chunks \<noteq> []" using cne by (simp add: chunk_lens_def)
  then have "min_list (chunk_lens ?chunks) \<in> set (chunk_lens ?chunks)"
    by (simp add: min_list_Min)
  then have "2 * overlap \<le> min_list (chunk_lens ?chunks)"
    using big by (auto simp: chunk_lens_def)
  then have so: "int (safe_overlap ?chunks overlap) = overlap"
    using assms(4) unfolding safe_overlap_def by simp
  obtain out where m: "merge_chunks ?chunks overlap = Some out"
    and l: "int (length out) = sum_list (chunk_lens ?chunks)
               - int (safe_overlap ?chunks overlap) * (int (length ?chunks) - 1)"
    using merge_chunks_total [OF cne assms(4)] by auto
  have "int (length out) = ?N" using l unfolding so total by simp
  then have "length out = length audio" by simp
  then show ?thesis
    using m plan assms(2,3) by (simp add: enhance_stage_def ov)
qed

section \<open>C1: a 90-second clip at 48 kHz\<close>

lemma plan_windows_90s:
  assumes "length audio = 4320000"
  shows "plan_windows enh 1440000 2400 audio =
     Some [\<lparr>w_start = 0, w_end = 1440000, w_chunk = enh (py_slice audio 0 1440000)\<rparr>,
           \<lparr>w_start = 1437600, w_end = 2877600, w_chunk = enh (py_slice audio 1437600 2877600)\<rparr>,
           \<lparr>w_start = 2875200, w_end = 4315200, w_chunk = enh (py_slice audio 2875200 4315200)\<rparr>,
           \<lparr>w_start = 4312800, w_end = 4320000, w_chunk = enh (py_slice audio 4312800 4320000)\<rparr>]"
  using assms by (simp add: plan_windows_def chunk_loop_more chunk_loop_last)

lemma enhance_stage_90s:
  assumes "length audio = 4320000" "\<And>xs. length (enh xs) = length xs"
  shows "\<exists>out. enhance_stage enh (Some 1440000) 2400 audio = Some (Some out) \<and>
           length out = 4320000"
proof -
  let ?chunks = "[enh (py_slice audio 0 1440000), enh (py_slice audio 1437600 2877600),
                  enh (py_slice audio 2875200 4315200), enh (py_slice audio 4312800 4320000)]"
  have lens: "chunk_lens ?chunks = [1440000, 1440000, 1440000, 7200]"
    using assms by (simp add: chunk_lens_def length_py_slice)
  have s: "safe_overlap ?chunks 2400 = 2400"
    unfolding safe_overlap_def lens by simp
  obtain out where m: "merge_chunks ?chunks 2400 = Some out"
    and l: "int (length out) = sum_list (chunk_lens ?chunks)
               - int (safe_overlap ?chunks 2400) * (int (length ?chunks) - 1)"
    using merge_chunks_total [of ?chunks 2400] by auto
  have "length out = 4320000" using l unfolding s lens by simp
  then show ?thesis
    using m assms(1) by (simp add: enhance_stage_def plan_windows_90s)
qed

text \<open>
  C1, as amended: a 90-second mono input at 48000 Hz (4,320,000 samples) with chunks of
  1,440,000 samples and an overlap of 2,400 samples, under a shape-preserving model call,
  is cut into exactly four windows, of 1,440,000, 1,440,000, 1,440,000 and 7,200 samples,
  consecutive windows overlapping by 2,400 samples, and the merged output has exactly
  4,320,000 samples.
\<close>

theorem enhance_90s_clip:
  assumes "length audio = 4320000" "\<And>xs. length (enh xs) = length xs"
  shows "\<exists>ws out. plan_windows enh 1440000 2400 audio = Some ws \<and>
           map (\<lambda>w. (w_start w, w_end w)) ws =
             [(0, 1440000), (1437600, 2877600), (2875200, 4315200), (4312800, 4320000)] \<and>
           map (\<lambda>w. length (w_chunk w)) ws = [1440000, 1440000, 1440000, 7200] \<and>
           enhance_stage enh (Some 1440000) 2400 audio = Some (Some out) \<and>
           length out = 4320000"
proof -
  obtain out where "enhance_stage enh (Some 1440000) 2400 audio = Some (Some out)"
    "length out = 4320000"
    using enhance_stage_90s [OF assms] by blast
  then show ?thesis
    using assms by (simp add: plan_windows_90s length_py_slice)
qed

theorem enhance_90s_clip_witness:
  "length (replicate 4320000 (0::real)) = 4320000 \<and>
   map_option (map_option length)
     (enhance_stage (\<lambda>xs. xs) (Some 1440000) 2400 (replicate 4320000 0)) = Some (Some 4320000)"
proof -
  have "\<exists>ws out. plan_windows (\<lambda>xs. xs) 1440000 2400 (replicate 4320000 (0::real)) = Some ws \<and>
           map (\<lambda>w. (w_start w, w_end w)) ws =
             [(0, 1440000), (1437600, 2877600), (2875200, 4315200), (4312800, 4320000)] \<and>
           map (\<lambda>w. length (w_chunk w)) ws = [1440000, 1440000, 1440000, 7200] \<and>
           enhance_stage (\<lambda>xs. xs) (Some 1440000) 2400 (replicate 4320000 0) = Some (Some out) \<and>
           length out = 4320000"
    by (rule enhance_90s_clip) simp_all
  then show ?thesis by auto
qed

text \<open>As stated, with exactly three windows, the claim fails: the loop cuts four.\<close>

theorem enhance_90s_three_windows_counterexample:
  "map_option length (plan_windows (\<lambda>xs. xs) 1440000 2400 (replicate 4320000 0)) = Some 4 \<and>
   map_option length (plan_windows (\<lambda>xs. xs) 1440000 2400 (replicate 4320000 0)) \<noteq> Some 3"
  by (simp add: plan_windows_90s)

section \<open>C5: the gain stage and the clip guard\<close>

lemma np_clip_unit: "\<bar>np_clip x (- 1) 1\<bar> \<le> 1"
  by (simp add: np_clip_def min_def max_def abs_if)

text \<open>
  C5, as amended: for every enhanced buffer and every non-zero gain in dB (in particular
  every positive one), no sample of the buffer the gain stage returns has an absolute
  value above 1.0. A gain of 0 dB, and no gain at all, skip the stage: every buffer
  comes back unchanged and unclipped.
\<close>

theorem gain_stage_clipped:
  "(g \<noteq> 0 \<longrightarrow> (\<forall>x\<in>set (gain_stage (Some g) enhanced). \<bar>x\<bar> \<le> 1)) \<and>
   gain_stage (Some 0) enhanced = enhanced \<and>
   gain_stage None enhanced = enhanced"
  by (auto simp: gain_stage_def Let_def np_clip_unit)

text \<open>A gain of 6 dB on a sample of 1.5; and a buffer with samples outside the unit
  range at 0 dB and without a gain.\<close>

theorem gain_stage_clipped_witness:
  "(6::real) \<noteq> 0 \<and> length (gain_stage (Some 6) [3/2]) = 1 \<and>
   \<bar>hd (gain_stage (Some 6) [3/2])\<bar> \<le> 1 \<and>
   gain_stage (Some 0) [3/2, - 2] = [3/2, - 2] \<and>
   gain_stage None [3/2, - 2] = [3/2, - 2]"
proof -
  have l: "length (gain_stage (Some 6) [3/2]) = 1"
    by (simp add: gain_stage_def Let_def)
  have "\<forall>x\<in>set (gain_stage (Some 6) [3/2]). \<bar>x\<bar> \<le> 1"
    using gain_stage_clipped [of 6 "[3/2]"] by simp
  then have a: "\<bar>hd (gain_stage (Some 6) [3/2])\<bar> \<le> 1"
    using l by (cases "gain_stage (Some 6) [3/2]") auto
  have b: "gain_stage (Some 0) [3/2, - 2] = [3/2, - 2]"
    "gain_stage None [3/2, - 2] = [3/2, - 2]"
    using gain_stage_clipped [of 6 "[3/2, - 2]"] by simp_all
  show ?thesis using l a b by simp
qed

text \<open>As stated, for every non-negative gain, the claim fails at 0 dB.\<close>

theorem gain_stage_zero_gain_counterexample:
  "gain_stage (Some 0) [3/2] = [3/2] \<and> \<not> \<bar>3/2 :: real\<bar> \<le> 1"
  by (simp add: gain_stage_def)

section \<open>C2: time until deletion\<close>

lemma max_py_int: "real_of_int (max 0 (py_int x)) \<le> max 0 x \<and> max 0 x < real_of_int (max 0 (py_int x)) + 1"
  unfolding py_int_def by (cases "0 \<le> x") (auto simp: max_def; linarith)+

text \<open>
  C2, as amended: \<open>get_time_until_deletion\<close> returns
  \<open>max(0, retention_window - age)\<close> truncated to whole seconds, where the age is now
  minus the modification time for an existing path and 0 for a path that does not
  exist. So it is never negative; for a file that does not exist it returns the full
  retention window (\<open>max(0, retention_window)\<close>), not 0; for a file modified less than a
  second ago it is the full window or one second less; for a file whose age has reached
  the window it is 0.
\<close>

theorem time_until_deletion_value:
  fixes retention_seconds :: int and fs :: "'p filesystem" and now :: real and file_path :: 'p
  defines "t \<equiv> get_time_until_deletion retention_seconds fs now file_path"
  defines "age \<equiv> get_file_age_seconds fs now file_path"
  shows "0 \<le> t \<and>
         real_of_int t \<le> max 0 (real_of_int retention_seconds - age) \<and>
         max 0 (real_of_int retention_seconds - age) < real_of_int t + 1 \<and>
         (fs file_path = None \<longrightarrow> age = 0 \<and> t = max 0 retention_seconds) \<and>
         (\<forall>st. fs file_path = Some st \<longrightarrow> age = now - st_mtime st) \<and>
         (0 \<le> age \<and> age < 1 \<longrightarrow> max 0 (retention_seconds - 1) \<le> t \<and> t \<le> max 0 retention_seconds) \<and>
         (real_of_int retention_seconds \<le> age \<longrightarrow> t = 0)"
proof -
  have t: "t = max 0 (py_int (real_of_int retention_seconds - age))"
    unfolding t_def age_def get_time_until_deletion_def Let_def ..
  have b: "real_of_int t \<le> max 0 (real_of_int retention_seconds - age)"
    "max 0 (real_of_int retention_seconds - age) < real_of_int t + 1"
    unfolding t using max_py_int [of "real_of_int retention_seconds - age"] by simp_all
  have n: "0 \<le> t" unfolding t by simp
  have none: "fs file_path = None \<longrightarrow> age = 0 \<and> t = max 0 retention_seconds"
  proof
    assume "fs file_path = None"
    then have a: "age = 0" by (simp add: age_def get_file_age_seconds_def)
    then show "age = 0 \<and> t = max 0 retention_seconds"
      unfolding t a by (simp add: py_int_def max_def)
  qed
  have some: "\<forall>st. fs file_path = Some st \<longrightarrow> age = now - st_mtime st"
    by (simp add: age_def get_file_age_seconds_def)
  have fresh: "0 \<le> age \<and> age < 1 \<longrightarrow>
      max 0 (retention_seconds - 1) \<le> t \<and> t \<le> max 0 retention_seconds"
    using b n by (auto simp: max_def split: if_splits; linarith)
  have old: "real_of_int retention_seconds \<le> age \<longrightarrow> t = 0"
    using b n by (auto simp: max_def split: if_splits)
  show ?thesis using n b none some fresh old by blast
qed

text \<open>A retention window of an hour: a path that does not exist, and a file modified
  half a second ago.\<close>

theorem time_until_deletion_value_witness:
  "get_time_until_deletion 3600 (Map.empty :: string filesystem) 1000 ''gone.wav'' = 3600 \<and>
   get_time_until_deletion 3600
     [''new.wav'' \<mapsto> \<lparr>st_kind = RegularFile, st_mtime = 1999 / 2\<rparr>] 1000 ''new.wav'' = 3599"
proof -
  let ?fs = "[''new.wav'' \<mapsto> \<lparr>st_kind = RegularFile, st_mtime = 1999 / 2\<rparr>]"
  have a: "get_time_until_deletion 3600 (Map.empty :: string filesystem) 1000 ''gone.wav'' = 3600"
    using time_until_deletion_value [of 3600 "Map.empty :: string filesystem" 1000 "''gone.wav''"]
    by simp
  have age: "get_file_age_seconds ?fs 1000 ''new.wav'' = 1 / 2"
    by (simp add: get_file_age_seconds_def)
  have "real_of_int (get_time_until_deletion 3600 ?fs 1000 ''new.wav'') \<le> max 0 (3600 - 1 / 2)"
    "max 0 (3600 - 1 / 2) < real_of_int (get_time_until_deletion 3600 ?fs 1000 ''new.wav'') + 1"
    using time_until_deletion_value [of 3600 ?fs 1000 "''new.wav''"] unfolding age by simp_all
  then have b: "get_time_until_deletion 3600 ?fs 1000 ''new.wav'' = 3599"
    by (simp add: max_def)
  show ?thesis using a b by simp
qed

text \<open>As stated, with 0 for a file that does not exist, the claim fails.\<close>

theorem time_until_deletion_missing_counterexample:
  "get_time_until_deletion 3600 (Map.empty :: string filesystem) 1000 ''gone.wav'' = 3600 \<and>
   get_time_until_deletion 3600 (Map.empty :: string filesystem) 1000 ''gone.wav'' \<noteq> 0"
  by (simp add: get_time_until_deletion_def get_file_age_seconds_def py_int_def)

section \<open>C10: explicit deletion\<close>

text \<open>
  C10: \<open>delete_file\<close> never raises. It returns \<open>True\<close> exactly when the path names an
  existing regular file and the unlink succeeds, and the file is then gone. It returns
  \<open>False\<close>, leaving the file system as it was, when the path does not exist, when it is
  not a regular file and when the unlink raises: the return value does not tell a
  missing file from a failed deletion.
\<close>

theorem delete_file_result:
  "\<exists>b fs'. delete_file io_fails fs file_path = Inr (b, fs') \<and>
      (b \<longleftrightarrow> (\<exists>st. fs file_path = Some st \<and> st_kind st = RegularFile) \<and> \<not> io_fails) \<and>
      (b \<longrightarrow> fs' = fs(file_path := None)) \<and>
      (\<not> b \<longrightarrow> fs' = fs) \<and>
      (fs file_path = None \<longrightarrow> \<not> b) \<and>
      (io_fails \<longrightarrow> \<not> b)"
proof (cases "fs file_path")
  case None
  then show ?thesis
    by (auto simp: delete_file_def delete_file_try_def path_exists_def)
next
  case (Some st)
  then show ?thesis
    by (cases "st_kind st")
      (auto simp: delete_file_def delete_file_try_def path_exists_def is_file_def unlink_def)
qed

text \<open>One regular file: deleting it, failing to delete it, and asking for a path that
  is not there.\<close>

theorem delete_file_result_witness:
  "map_sum id fst (delete_file False
      [''a.wav'' \<mapsto> \<lparr>st_kind = RegularFile, st_mtime = 0\<rparr>] ''a.wav'') = Inr True \<and>
   map_sum id fst (delete_file True
      [''a.wav'' \<mapsto> \<lparr>st_kind = RegularFile, st_mtime = 0\<rparr>] ''a.wav'') = Inr False \<and>
   map_sum id fst (delete_file False
      [''a.wav'' \<mapsto> \<lparr>st_kind = RegularFile, st_mtime = 0\<rparr>] ''b.wav'') = Inr False"
proof -
  let ?fs = "[''a.wav'' \<mapsto> \<lparr>st_kind = RegularFile, st_mtime = 0\<rparr>]"
  have a: "map_sum id fst (delete_file False ?fs ''a.wav'') = Inr True"
    using delete_file_result [of False ?fs "''a.wav''"] by auto
  have b: "map_sum id fst (delete_file True ?fs ''a.wav'') = Inr False"
    using delete_file_result [of True ?fs "''a.wav''"] by auto
  have c: "map_sum id fst (delete_file False ?fs ''b.wav'') = Inr False"
    using delete_file_result [of False ?fs "''b.wav''"] by auto
  show ?thesis using a b c by simp
qed

section \<open>C6: at most three initialisation attempts\<close>

lemma all_less_3: "(\<forall>k<3. P k) \<longleftrightarrow> P 0 \<and> P (Suc 0) \<and> P (Suc (Suc 0))"
  by (auto simp: numeral_3_eq_3 less_Suc_eq)

text \<open>
  C6: starting from a processor that is not initialised, \<open>initialize\<close> calls the loader
  at most three times. If all three calls fail, by an exception or by \<open>SystemExit\<close>, each
  failure is followed by a sleep, of 1, 2 and 4 seconds, one \<open>RuntimeError\<close> is raised and
  the loader has been called exactly three times. If call \<open>k\<close> is the first to succeed,
  the processor is initialised after \<open>k + 1\<close> calls and \<open>k\<close> sleeps, and no further call
  is made.
\<close>

theorem initialize_retries:
  assumes "\<not> initialized p"
  shows "case initialize True init_df p of (r, p') \<Rightarrow>
     init_calls p' \<le> init_calls p + 3 \<and>
     ((\<forall>k<3. init_df (init_calls p + k) \<noteq> Loaded) \<longrightarrow>
        (\<exists>msg. r = Inl (RuntimeError msg)) \<and> \<not> initialized p' \<and>
        init_calls p' = init_calls p + 3 \<and> sleeps p' = sleeps p @ [1, 2, 4]) \<and>
     (\<forall>k<3. init_df (init_calls p + k) = Loaded \<and>
             (\<forall>j<k. init_df (init_calls p + j) \<noteq> Loaded) \<longrightarrow>
        r = Inr () \<and> initialized p' \<and>
        init_calls p' = init_calls p + k + 1 \<and> sleeps p' = sleeps p @ take k [1, 2, 4])"
  using assms
  by (cases "init_df (init_calls p)"; cases "init_df (Suc (init_calls p))";
      cases "init_df (Suc (Suc (init_calls p)))")
    (auto simp: initialize_def all_less_3 sleep_def less_Suc_eq)

text \<open>Two exceptions followed by a \<open>SystemExit\<close>; and one exception followed by a
  successful load.\<close>

theorem initialize_retries_witness:
  "fst (initialize True (\<lambda>n. if n = 2 then RaisesSystemExit ''1'' else RaisesException ''HTTP 503'')
         \<lparr>initialized = False, init_calls = 0, sleeps = []\<rparr>)
     = Inl (RuntimeError (''Failed to initialize audio processing model: '' @
             ''Failed to initialize DeepFilterNet after retries: '' @
             ''DeepFilterNet init aborted (SystemExit): 1'')) \<and>
   snd (initialize True (\<lambda>n. if n = 2 then RaisesSystemExit ''1'' else RaisesException ''HTTP 503'')
         \<lparr>initialized = False, init_calls = 0, sleeps = []\<rparr>)
     = \<lparr>initialized = False, init_calls = 3, sleeps = [1, 2, 4]\<rparr> \<and>
   initialize True (\<lambda>n. if n = 1 then Loaded else RaisesException ''HTTP 503'')
         \<lparr>initialized = False, init_calls = 0, sleeps = []\<rparr>
     = (Inr (), \<lparr>initialized = True, init_calls = 2, sleeps = [1]\<rparr>)"
proof -
  let ?p = "\<lparr>initialized = False, init_calls = 0, sleeps = []\<rparr>"
  let ?bad = "\<lambda>n::nat. if n = 2 then RaisesSystemExit ''1'' else RaisesException ''HTTP 503''"
  let ?ok = "\<lambda>n::nat. if n = 1 then Loaded else RaisesException ''HTTP 503''"
  obtain r p' where e: "initialize True ?bad ?p = (r, p')" by (cases "initialize True ?bad ?p")
  have "(\<exists>msg. r = Inl (RuntimeError msg)) \<and> \<not> initialized p' \<and>
        init_calls p' = 3 \<and> sleeps p' = [1, 2, 4]"
    using initialize_retries [of ?p ?bad] unfolding e by simp
  moreover have "initialize True ?bad ?p =
     (Inl (RuntimeError (''Failed to initialize audio processing model: '' @
             ''Failed to initialize DeepFilterNet after retries: '' @
             ''DeepFilterNet init aborted (SystemExit): 1'')),
      \<lparr>initialized = False, init_calls = 3, sleeps = [1, 2, 4]\<rparr>)"
    by (simp add: initialize_def sleep_def str_of_error_def)
  ultimately have a: "fst (initialize True ?bad ?p) =
      Inl (RuntimeError (''Failed to initialize audio processing model: '' @
             ''Failed to initialize DeepFilterNet after retries: '' @
             ''DeepFilterNet init aborted (SystemExit): 1''))"
    "snd (initialize True ?bad ?p) = \<lparr>initialized = False, init_calls = 3, sleeps = [1, 2, 4]\<rparr>"
    by simp_all
  have b: "initialize True ?ok ?p = (Inr (), \<lparr>initialized = True, init_calls = 2, sleeps = [1]\<rparr>)"
    by (simp add: initialize_def sleep_def)
  show ?thesis using a b by simp
qed

section \<open>C8: the path and size that \<open>process_file\<close> reports\<close>

lemma lower_wav: "lower ''.wav'' = ''.wav''"
  by (simp add: lower_def lower_char_def)
lemma lower_mp3: "lower ''.mp3'' = ''.mp3''"
  by (simp add: lower_def lower_char_def)

lemma save_audio_fallback:
  assumes "lower (suffix requested) \<noteq> ''.wav''" "lower (suffix requested) \<noteq> []"
    and "export env = ExportRaises left \<or> export env = ExportReturns None \<or>
         export env = ExportReturns (Some 0)"
    and "save_audio env d requested = (Inr final, d')"
  shows "with_suffix requested ''.wav'' = Some final \<and> final \<noteq> requested \<and>
         (\<exists>n. sf_write env = Some n \<and> d' final = Some n)"
proof -
  have ne: "suffix requested \<noteq> ''.wav''"
    using assms(1) lower_wav by auto
  obtain wav where w: "with_suffix requested ''.wav'' = Some wav"
    using assms by (cases "with_suffix requested ''.wav''")
      (auto simp: save_audio_def save_audio_try_def Let_def split: if_splits)
  have sw: "suffix wav = ''.wav''"
    using w by (auto simp: with_suffix_def split: if_splits)
  have neq: "wav \<noteq> requested"
    using sw ne by auto
  obtain n where n: "sf_write env = Some n"
    using assms w by (cases "sf_write env")
      (auto simp: save_audio_def save_audio_try_def Let_def split: if_splits)
  have "final = wav \<and> d' final = Some n"
    using assms(1,2,3,4) w n neq
    by (auto simp: save_audio_def save_audio_try_def Let_def set_file_def
        split: if_splits option.splits)
  then show ?thesis using w neq n by auto
qed

text \<open>
  C8: when a container other than WAV is requested and the conversion fails (it raises)
  or leaves no file or an empty one, a success result of \<open>process_file\<close> names as
  \<open>output_path\<close> the WAV file next to the requested path, which is not the requested path
  and is on disk after the call, and reports as size the size of that file, the one
  \<open>sf.write\<close> wrote.
\<close>

theorem process_file_reports_written_path:
  assumes "lower (suffix requested) \<noteq> ''.wav''" "lower (suffix requested) \<noteq> []"
    and "export (save env) = ExportRaises left \<or> export (save env) = ExportReturns None \<or>
         export (save env) = ExportReturns (Some 0)"
    and "process_file env d input_path requested = (Success r, d')"
  shows "with_suffix requested ''.wav'' = Some (output_path r) \<and>
         output_path r \<noteq> requested \<and>
         d' (output_path r) = Some (output_size_bytes r) \<and>
         sf_write (save env) = Some (output_size_bytes r)"
proof -
  obtain final where s: "save_audio (save env) d requested = (Inr final, d')"
    and f: "output_path r = final" and z: "d' final = Some (output_size_bytes r)"
    using assms(4)
    by (auto simp: process_file_def Let_def split: option.splits if_splits prod.splits sum.splits)
  have "with_suffix requested ''.wav'' = Some final \<and> final \<noteq> requested \<and>
         (\<exists>n. sf_write (save env) = Some n \<and> d' final = Some n)"
    using assms(1,2,3) s by (rule save_audio_fallback)
  then show ?thesis using f z by auto
qed

text \<open>A one-second clip, \<open>x.mp3\<close> requested, the conversion raising: the result names
  \<open>x.wav\<close> and its 96044 bytes.\<close>

theorem process_file_reports_written_path_witness:
  "fst (process_file
      \<lparr>load_audio = Some (48000, 48000), enhance_raises = False,
        save = \<lparr>mkdir_raises = False, sf_write = Some 96044,
                 export = ExportRaises None, unlink_raises = False\<rparr>\<rparr>
      Map.empty
      \<lparr>parent_dir = ''uploads'', stem = ''x'', suffix = ''.wav''\<rparr>
      \<lparr>parent_dir = ''processed'', stem = ''x'', suffix = ''.mp3''\<rparr>)
   = Success \<lparr>duration_seconds = 1, sample_rate = 48000, output_size_bytes = 96044,
       output_path = \<lparr>parent_dir = ''processed'', stem = ''x'', suffix = ''.wav''\<rparr>\<rparr>"
proof -
  let ?env = "\<lparr>load_audio = Some (48000, 48000), enhance_raises = False,
        save = \<lparr>mkdir_raises = False, sf_write = Some 96044,
                 export = ExportRaises None, unlink_raises = False\<rparr>\<rparr>"
  let ?inp = "\<lparr>parent_dir = ''uploads'', stem = ''x'', suffix = ''.wav''\<rparr>"
  let ?req = "\<lparr>parent_dir = ''processed'', stem = ''x'', suffix = ''.mp3''\<rparr>"
  let ?wav = "\<lparr>parent_dir = ''processed'', stem = ''x'', suffix = ''.wav''\<rparr>"
  obtain res d' where e: "process_file ?env Map.empty ?inp ?req = (res, d')"
    by (cases "process_file ?env Map.empty ?inp ?req")
  have "\<exists>r. res = Success r \<and> duration_seconds r = 1 \<and> sample_rate r = 48000"
    using e by (auto simp: process_file_def save_audio_def save_audio_try_def Let_def
        lower_mp3 with_suffix_def)
  then obtain r where r: "res = Success r" "duration_seconds r = 1" "sample_rate r = 48000"
    by blast
  have "with_suffix ?req ''.wav'' = Some (output_path r) \<and>
         output_path r \<noteq> ?req \<and>
         d' (output_path r) = Some (output_size_bytes r) \<and>
         sf_write (save ?env) = Some (output_size_bytes r)"
    by (rule process_file_reports_written_path [where left = None and d = Map.empty
          and input_path = ?inp])
      (use e r in \<open>simp_all add: lower_mp3\<close>)
  then have "output_path r = ?wav" "output_size_bytes r = 96044"
    by (simp_all add: with_suffix_def)
  then have "r = \<lparr>duration_seconds = 1, sample_rate = 48000, output_size_bytes = 96044,
       output_path = ?wav\<rparr>"
    using r by (cases r) simp
  then show ?thesis using e r by simp
qed

end
